theory Spec2Isabelle
  imports Complex_Main "HOL-Library.AList" "HOL-Library.Multiset" "HOL-Library.Sublist"
begin

section \<open>pdf\_to\_json.py: data model\<close>

text \<open>
  Numbers. The extractor reports positions and font sizes as finite Python floats; the
  program only compares them and rounds them, and both operations act on the exact value
  of the float, so a number is modelled by its exact value, a \<^typ>\<open>real\<close>. Python's
  \<open>round(x)\<close> rounds to the nearest integer, a tie to the even neighbour, and returns
  an \<open>int\<close>; \<open>round(x, 1)\<close> does the same at one decimal place.

  Text. A \<^typ>\<open>char\<close> stands for one ASCII code point; the string predicates below
  are Python's \<open>str\<close> methods on ASCII text.
\<close>

datatype error = FileNotFoundError | ValueError | KeyError | TypeError | PdfOpenError | CamelotError

definition py_round :: "real \<Rightarrow> int" where
  "py_round x =
     (let f = \<lfloor>x\<rfloor>; d = x - of_int f
      in if d < 1 / 2 then f else if 1 / 2 < d then f + 1 else if even f then f else f + 1)"

definition py_round1 :: "real \<Rightarrow> real" where
  "py_round1 v = of_int (py_round (v * 10)) / 10"

text \<open>A character as the extractor yields it: \<open>ch["text"]\<close>, \<open>ch["top"]\<close>, \<open>ch["size"]\<close>.\<close>

record pchar =
  ch_text :: string
  ch_top :: real
  ch_size :: real

text \<open>An image descriptor: \<open>img["x0"]\<close>, \<open>img["top"]\<close>, \<open>img["x1"]\<close>, \<open>img["bottom"]\<close>.\<close>

record image =
  img_x0 :: real
  img_top :: real
  img_x1 :: real
  img_bottom :: real

text \<open>A raw table grid: rows of cells, a cell a string or \<open>None\<close>.\<close>

type_synonym grid = "string option list list"

text \<open>
  The values stored in an output dict, and the dict itself as an association list in
  insertion order (Python dicts keep it, and the serialised key order follows it).
\<close>

datatype pyval =
    PyNone
  | PyStr string
  | PyInt int
  | PyFloat real
  | PyGrid grid
  | PyTuple "real list"

type_synonym entry = "(string \<times> pyval) list"

section \<open>String methods\<close>

definition is_space :: "char \<Rightarrow> bool" where
  "is_space c \<longleftrightarrow> c \<in> set [CHR 0x09, CHR 0x0A, CHR 0x0B, CHR 0x0C, CHR 0x0D,
                           CHR 0x1C, CHR 0x1D, CHR 0x1E, CHR 0x1F, CHR '' '']"

definition is_upper_char :: "char \<Rightarrow> bool" where
  "is_upper_char c \<longleftrightarrow> c \<in> set ''ABCDEFGHIJKLMNOPQRSTUVWXYZ''"

definition is_lower_char :: "char \<Rightarrow> bool" where
  "is_lower_char c \<longleftrightarrow> c \<in> set ''abcdefghijklmnopqrstuvwxyz''"

definition is_digit_char :: "char \<Rightarrow> bool" where
  "is_digit_char c \<longleftrightarrow> c \<in> set ''0123456789''"

text \<open>\<open>s.strip()\<close>: leading and trailing whitespace removed.\<close>

definition strip :: "string \<Rightarrow> string" where
  "strip s = rev (dropWhile is_space (rev (dropWhile is_space s)))"

text \<open>\<open>s.isupper()\<close>: at least one cased character, and no lowercase one.\<close>

definition isupper :: "string \<Rightarrow> bool" where
  "isupper s \<longleftrightarrow> list_ex is_upper_char s \<and> \<not> list_ex is_lower_char s"

text \<open>\<open>s.isdigit()\<close>: non-empty, every character a digit.\<close>

definition isdigit :: "string \<Rightarrow> bool" where
  "isdigit s \<longleftrightarrow> s \<noteq> [] \<and> list_all is_digit_char s"

text \<open>
  \<open>s.split()\<close>: the maximal runs of non-whitespace characters. \<open>split_from w s\<close> scans
  \<open>s\<close> with the word \<open>w\<close> read so far.
\<close>

fun split_from :: "string \<Rightarrow> string \<Rightarrow> string list" where
  "split_from w [] = (if w = [] then [] else [w])"
| "split_from w (c # cs) =
     (if is_space c then (if w = [] then split_from [] cs else w # split_from [] cs)
      else split_from (w @ [c]) cs)"

definition split :: "string \<Rightarrow> string list" where
  "split s = split_from [] s"

text \<open>\<open>s.replace(c, "")\<close> for a one-character \<open>c\<close>.\<close>

definition replace_char :: "char \<Rightarrow> string \<Rightarrow> string" where
  "replace_char c s = filter (\<lambda>x. x \<noteq> c) s"

section \<open>identify\_text\_role\<close>

definition SECTION_FONT_SIZE :: int where
  "SECTION_FONT_SIZE = 14"

definition SUBSECTION_FONT_SIZE :: int where
  "SUBSECTION_FONT_SIZE = 12"

text \<open>
  \<open>font_sizes = defaultdict(int)\<close> is an association list in insertion order.
  \<open>font_sizes[k] += 1\<close> reads the count (0 for a missing key, which is then inserted at
  the end) and stores it incremented, an existing key keeping its position.
\<close>

definition get_count :: "(int \<times> nat) list \<Rightarrow> int \<Rightarrow> nat" where
  "get_count d k = (case map_of d k of None \<Rightarrow> 0 | Some n \<Rightarrow> n)"

definition incr :: "int \<Rightarrow> (int \<times> nat) list \<Rightarrow> (int \<times> nat) list" where
  "incr k d = AList.update k (get_count d k + 1) d"

definition count_font_sizes :: "pchar list \<Rightarrow> (int \<times> nat) list" where
  "count_font_sizes chars = fold (\<lambda>ch d. incr (py_round (ch_size ch)) d) chars []"

text \<open>
  \<open>max(xs, key=f)\<close>: the first element whose key no later element exceeds strictly, and
  \<open>ValueError\<close> on an empty iterable. \<open>max_from\<close> is the loop with the best element so
  far.
\<close>

fun max_from :: "('a \<Rightarrow> nat) \<Rightarrow> 'a \<Rightarrow> 'a list \<Rightarrow> 'a" where
  "max_from f m [] = m"
| "max_from f m (x # xs) = (if f m < f x then max_from f x xs else max_from f m xs)"

definition py_max :: "('a \<Rightarrow> nat) \<Rightarrow> 'a list \<Rightarrow> error + 'a" where
  "py_max f xs = (case xs of [] \<Rightarrow> Inl ValueError | x # r \<Rightarrow> Inr (max_from f x r))"

text \<open>Lines 20 to 23: the dominant size of a character list.\<close>

definition dominant_size :: "pchar list \<Rightarrow> error + int" where
  "dominant_size chars =
     (let font_sizes = count_font_sizes chars
      in py_max (get_count font_sizes) (map fst font_sizes))"

definition identify_text_role :: "pchar list \<Rightarrow> error + string" where
  "identify_text_role chars =
     (if chars = [] then Inr ''paragraph''
      else case dominant_size chars of
             Inl e \<Rightarrow> Inl e
           | Inr dominant \<Rightarrow>
               if dominant \<ge> SECTION_FONT_SIZE then Inr ''section''
               else if dominant \<ge> SUBSECTION_FONT_SIZE then Inr ''sub_section''
               else Inr ''paragraph'')"

section \<open>is\_number\_line\<close>

definition is_number_line :: "string \<Rightarrow> bool" where
  "is_number_line txt =
     (let clean = replace_char CHR ''%'' (replace_char CHR ''.''
                    (replace_char CHR ''-'' (replace_char CHR '' '' txt)))
      in isdigit clean)"

section \<open>deduplicate\_charts\<close>

text \<open>
  \<open>tuple(round(v, 1) for v in ch["bbox"])\<close>: \<open>KeyError\<close> when the dict has no
  \<open>bbox\<close>, \<open>TypeError\<close> when the value is not a sequence of numbers.
\<close>

definition bbox_key :: "entry \<Rightarrow> error + real list" where
  "bbox_key ch =
     (case map_of ch ''bbox'' of
        None \<Rightarrow> Inl KeyError
      | Some (PyTuple vs) \<Rightarrow> Inr (map py_round1 vs)
      | Some _ \<Rightarrow> Inl TypeError)"

fun dedup_loop :: "real list set \<Rightarrow> entry list \<Rightarrow> entry list \<Rightarrow> error + entry list" where
  "dedup_loop seen unique [] = Inr unique"
| "dedup_loop seen unique (ch # charts) =
     (case bbox_key ch of
        Inl e \<Rightarrow> Inl e
      | Inr bbox \<Rightarrow>
          if bbox \<notin> seen then dedup_loop (insert bbox seen) (unique @ [ch]) charts
          else dedup_loop seen unique charts)"

definition deduplicate_charts :: "entry list \<Rightarrow> error + entry list" where
  "deduplicate_charts charts = dedup_loop {} [] charts"

section \<open>extract\_tables\_with\_camelot\<close>

text \<open>\<open>str(n)\<close> for a page number.\<close>

definition digit_char :: "nat \<Rightarrow> char" where
  "digit_char n = ''0123456789'' ! (n mod 10)"

fun str_nat :: "nat \<Rightarrow> string" where
  "str_nat n = (if n < 10 then [digit_char n] else str_nat (n div 10) @ [digit_char n])"

text \<open>
  The secondary engine. The module global \<open>camelot\<close> is \<open>None\<close> when the import
  failed, and otherwise gives \<open>read_pdf(pdf_path, pages, flavor)\<close>, which returns table
  objects or raises. A table object exposes its grid as \<open>t.data\<close>.
\<close>

record ctable =
  data :: grid

type_synonym read_pdf = "string \<Rightarrow> string \<Rightarrow> string \<Rightarrow> error + ctable list"

definition extract_tables_with_camelot :: "read_pdf option \<Rightarrow> string \<Rightarrow> nat \<Rightarrow> grid list" where
  "extract_tables_with_camelot camelot pdf_path page_number =
     (case camelot of
        None \<Rightarrow> []
      | Some read_pdf \<Rightarrow>
          (case read_pdf pdf_path (str_nat page_number) ''stream'' of
             Inr tables \<Rightarrow> map data tables
           | Inl e \<Rightarrow> []))"

section \<open>parse\_pdf: the lines of a page\<close>

text \<open>
  \<open>lines = defaultdict(list)\<close> and \<open>lines[round(ch["top"])] += [ch]\<close>, as for
  \<open>font_sizes\<close>. \<open>sorted(lines.items())\<close> compares the pairs by their keys, which
  are distinct.
\<close>

definition get_line :: "(int \<times> pchar list) list \<Rightarrow> int \<Rightarrow> pchar list" where
  "get_line d k = (case map_of d k of None \<Rightarrow> [] | Some cs \<Rightarrow> cs)"

definition add_char :: "pchar \<Rightarrow> (int \<times> pchar list) list \<Rightarrow> (int \<times> pchar list) list" where
  "add_char ch d = (let k = py_round (ch_top ch) in AList.update k (get_line d k @ [ch]) d)"

definition sorted_lines :: "pchar list \<Rightarrow> (int \<times> pchar list) list" where
  "sorted_lines chars = sort_key fst (fold add_char chars [])"

definition opt_str :: "string option \<Rightarrow> pyval" where
  "opt_str s = (case s of None \<Rightarrow> PyNone | Some t \<Rightarrow> PyStr t)"

definition paragraph_entry :: "string option \<Rightarrow> string option \<Rightarrow> string \<Rightarrow> int \<Rightarrow> entry" where
  "paragraph_entry sec sub line_text tp =
     [(''type'', PyStr ''paragraph''),
      (''section'', opt_str sec),
      (''sub_section'', opt_str sub),
      (''text'', PyStr line_text),
      (''top'', PyInt tp)]"

text \<open>
  The variables of the loop over the lines. \<open>previous_entry\<close> refers to a dict that is
  also an element of \<open>page_content\<close>: it is kept as the position of that element, so
  that the update through it is an update of the list.
\<close>

record line_state =
  page_content :: "entry list"
  current_section :: "string option"
  current_sub_section :: "string option"
  previous_entry :: "nat option"

definition init_state :: line_state where
  "init_state =
     \<lparr>page_content = [], current_section = None, current_sub_section = None,
      previous_entry = None\<rparr>"

text \<open>\<open>e["text"] += s\<close>.\<close>

definition append_text :: "entry \<Rightarrow> string \<Rightarrow> error + entry" where
  "append_text e s =
     (case map_of e ''text'' of
        None \<Rightarrow> Inl KeyError
      | Some (PyStr t) \<Rightarrow> Inr (AList.update ''text'' (PyStr (t @ s)) e)
      | Some _ \<Rightarrow> Inl TypeError)"

definition line_text_of :: "pchar list \<Rightarrow> string" where
  "line_text_of char_list = strip (concat (map ch_text char_list))"

text \<open>Line 86: the running header and footer filter.\<close>

definition is_header_footer :: "string \<Rightarrow> bool" where
  "is_header_footer line_text \<longleftrightarrow>
     isupper line_text \<and> length (split line_text) \<le> 2 \<and> length line_text < 15"

text \<open>Lines 90 to 94.\<close>

definition track_section :: "string \<Rightarrow> string \<Rightarrow> line_state \<Rightarrow> line_state" where
  "track_section role line_text st =
     (if role = ''section''
      then st\<lparr>current_section := Some line_text, current_sub_section := None\<rparr>
      else if role = ''sub_section''
      then st\<lparr>current_sub_section := Some line_text\<rparr>
      else st)"

text \<open>Lines 96 to 108.\<close>

definition emit_line :: "string \<Rightarrow> int \<Rightarrow> line_state \<Rightarrow> error + line_state" where
  "emit_line line_text tp st =
     (case (if is_number_line line_text then previous_entry st else None) of
        Some i \<Rightarrow>
          (case append_text (page_content st ! i) ('' '' @ line_text) of
             Inl e \<Rightarrow> Inl e
           | Inr e' \<Rightarrow> Inr (st\<lparr>page_content := (page_content st)[i := e']\<rparr>))
      | None \<Rightarrow>
          Inr (st\<lparr>page_content :=
                    page_content st @
                    [paragraph_entry (current_section st) (current_sub_section st) line_text tp],
                  previous_entry := Some (length (page_content st))\<rparr>))"

text \<open>One iteration of the loop of lines 81 to 108.\<close>

definition process_line :: "line_state \<Rightarrow> int \<times> pchar list \<Rightarrow> error + line_state" where
  "process_line st line =
     (let tp = fst line; char_list = snd line; line_text = line_text_of char_list
      in if line_text = [] then Inr st
         else if is_header_footer line_text then Inr st
         else case identify_text_role char_list of
                Inl e \<Rightarrow> Inl e
              | Inr role \<Rightarrow> emit_line line_text tp (track_section role line_text st))"

fun process_lines :: "line_state \<Rightarrow> (int \<times> pchar list) list \<Rightarrow> error + line_state" where
  "process_lines st [] = Inr st"
| "process_lines st (line # rest) =
     (case process_line st line of Inl e \<Rightarrow> Inl e | Inr st' \<Rightarrow> process_lines st' rest)"

section \<open>parse\_pdf: tables, charts and the order of a page\<close>

text \<open>
  A page as the extractor gives it: \<open>page.chars\<close>, \<open>page.images\<close> and what
  \<open>page.extract_tables()\<close> returns.
\<close>

record page =
  page_chars :: "pchar list"
  page_images :: "image list"
  page_extract_tables :: "grid list"

definition table_entry :: "string option \<Rightarrow> string option \<Rightarrow> grid \<Rightarrow> entry" where
  "table_entry sec sub tbl =
     [(''type'', PyStr ''table''),
      (''section'', opt_str sec),
      (''sub_section'', opt_str sub),
      (''table_data'', PyGrid tbl),
      (''description'', PyNone),
      (''top'', PyNone)]"

definition chart_entry :: "string option \<Rightarrow> string option \<Rightarrow> nat \<Rightarrow> image \<Rightarrow> entry" where
  "chart_entry sec sub page_num img =
     [(''type'', PyStr ''chart''),
      (''section'', opt_str sec),
      (''sub_section'', opt_str sub),
      (''description'', PyStr (''Chart or image on page '' @ str_nat page_num)),
      (''bbox'', PyTuple [img_x0 img, img_top img, img_x1 img, img_bottom img]),
      (''table_data'', PyNone),
      (''top'', PyFloat (img_top img))]"

text \<open>Line 123: \<open>tbl and any(any(cell for cell in row) for row in tbl)\<close>.\<close>

definition cell_truthy :: "string option \<Rightarrow> bool" where
  "cell_truthy cell = (case cell of None \<Rightarrow> False | Some s \<Rightarrow> s \<noteq> [])"

definition accept_grid :: "grid \<Rightarrow> bool" where
  "accept_grid tbl \<longleftrightarrow> tbl \<noteq> [] \<and> list_ex (\<lambda>row. list_ex cell_truthy row) tbl"

text \<open>Lines 110 to 131: the table entries of a page.\<close>

definition table_entries ::
  "read_pdf option \<Rightarrow> string \<Rightarrow> nat \<Rightarrow> page \<Rightarrow> string option \<Rightarrow> string option \<Rightarrow> entry list" where
  "table_entries camelot pdf_path page_num pg sec sub =
     (let camelot_tables = extract_tables_with_camelot camelot pdf_path page_num
      in map (table_entry sec sub) camelot_tables @
         (if camelot_tables = []
          then map (table_entry sec sub) (filter accept_grid (page_extract_tables pg))
          else []))"

text \<open>Lines 133 to 144: the chart entries of a page.\<close>

definition chart_entries ::
  "nat \<Rightarrow> page \<Rightarrow> string option \<Rightarrow> string option \<Rightarrow> error + entry list" where
  "chart_entries page_num pg sec sub =
     deduplicate_charts (map (chart_entry sec sub page_num) (page_images pg))"

text \<open>Lines 69 to 145: \<open>page_content\<close> before it is sorted.\<close>

definition page_entries :: "read_pdf option \<Rightarrow> string \<Rightarrow> nat \<Rightarrow> page \<Rightarrow> error + entry list" where
  "page_entries camelot pdf_path i pg =
     (let page_num = i + 1
      in case process_lines init_state (sorted_lines (page_chars pg)) of
           Inl e \<Rightarrow> Inl e
         | Inr st \<Rightarrow>
             (let sec = current_section st; sub = current_sub_section st;
                  tables = table_entries camelot pdf_path page_num pg sec sub
              in case chart_entries page_num pg sec sub of
                   Inl e \<Rightarrow> Inl e
                 | Inr charts \<Rightarrow> Inr (page_content st @ tables @ charts)))"

text \<open>
  Line 150: the sort key. \<open>sorted\<close> is a stable sort, and so is \<^const>\<open>sort_key\<close>; a
  stable sort by a key has one result only.
\<close>

definition top_key :: "entry \<Rightarrow> real" where
  "top_key x =
     (case map_of x ''top'' of
        Some (PyInt t) \<Rightarrow> of_int t
      | Some (PyFloat t) \<Rightarrow> t
      | _ \<Rightarrow> 1000000000)"

record page_out =
  page_number :: nat
  content :: "entry list"

definition parse_page :: "read_pdf option \<Rightarrow> string \<Rightarrow> nat \<Rightarrow> page \<Rightarrow> error + page_out" where
  "parse_page camelot pdf_path i pg =
     (case page_entries camelot pdf_path i pg of
        Inl e \<Rightarrow> Inl e
      | Inr entries \<Rightarrow>
          Inr \<lparr>page_number = i + 1, content = sort_key top_key entries\<rparr>)"

section \<open>parse\_pdf and main\<close>

text \<open>
  The files: a path holds a PDF with its pages, a document written by \<open>main\<close>, or
  something else. \<open>os.path.exists\<close> is membership in the domain; \<open>pdfplumber.open\<close>
  raises on a file that is not a PDF.
\<close>

type_synonym document = "page_out list"

datatype fs_file = PdfFile "page list" | JsonFile document | OtherFile

fun parse_pages ::
  "read_pdf option \<Rightarrow> string \<Rightarrow> nat \<Rightarrow> document \<Rightarrow> page list \<Rightarrow> error + document" where
  "parse_pages camelot pdf_path i pages [] = Inr pages"
| "parse_pages camelot pdf_path i pages (pg # pgs) =
     (case parse_page camelot pdf_path i pg of
        Inl e \<Rightarrow> Inl e
      | Inr out \<Rightarrow> parse_pages camelot pdf_path (i + 1) (pages @ [out]) pgs)"

definition parse_pdf ::
  "read_pdf option \<Rightarrow> (string \<rightharpoonup> fs_file) \<Rightarrow> string \<Rightarrow> error + document" where
  "parse_pdf camelot fs pdf_path =
     (case fs pdf_path of
        None \<Rightarrow> Inl FileNotFoundError
      | Some (PdfFile pgs) \<Rightarrow> parse_pages camelot pdf_path 0 [] pgs
      | Some _ \<Rightarrow> Inl PdfOpenError)"

text \<open>
  \<open>main\<close> acts on the files and on standard output. \<open>str(e)\<close> is the message of
  line 63 for \<open>FileNotFoundError\<close>; the other messages come from the libraries and
  are left as the name of the error.
\<close>

record world =
  files :: "string \<rightharpoonup> fs_file"
  stdout :: "string list"

definition print :: "string \<Rightarrow> world \<Rightarrow> world" where
  "print s w = w\<lparr>stdout := stdout w @ [s]\<rparr>"

definition error_message :: "error \<Rightarrow> string \<Rightarrow> string" where
  "error_message e pdf_path =
     (case e of
        FileNotFoundError \<Rightarrow> ''File not found: '' @ pdf_path
      | ValueError \<Rightarrow> ''ValueError''
      | KeyError \<Rightarrow> ''KeyError''
      | TypeError \<Rightarrow> ''TypeError''
      | PdfOpenError \<Rightarrow> ''PdfOpenError''
      | CamelotError \<Rightarrow> ''CamelotError'')"

definition main :: "read_pdf option \<Rightarrow> string \<Rightarrow> string \<Rightarrow> world \<Rightarrow> world" where
  "main camelot input_pdf output_json w =
     (let w1 = print (''Parsing '' @ [CHR 0x27] @ input_pdf @ [CHR 0x27] @ ''...'') w
      in case parse_pdf camelot (files w1) input_pdf of
           Inl e \<Rightarrow> print (''Error: '' @ error_message e input_pdf) w1
         | Inr extracted_data \<Rightarrow>
             print (''Extracted content saved to '' @ [CHR 0x27] @ output_json @ [CHR 0x27])
               (w1\<lparr>files := (files w1)(output_json \<mapsto> JsonFile extracted_data)\<rparr>))"

section \<open>Notions used in the statements\<close>

text \<open>The number of characters of a list whose font size rounds to \<open>s\<close>.\<close>

definition size_count :: "pchar list \<Rightarrow> int \<Rightarrow> nat" where
  "size_count cs s = count_list (map (\<lambda>ch. py_round (ch_size ch)) cs) s"

text \<open>
  What holds of the loop variables between two lines: every entry so far is a paragraph
  entry, and \<open>previous_entry\<close> is the last of them (\<open>None\<close> when there is none).
\<close>

definition line_inv :: "line_state \<Rightarrow> bool" where
  "line_inv st \<longleftrightarrow>
     list_all (\<lambda>e. \<exists>sec sub t tp. e = paragraph_entry sec sub t tp) (page_content st) \<and>
     previous_entry st =
       (if page_content st = [] then None else Some (length (page_content st) - 1))"




section \<open>An example page\<close>

text \<open>
  A heading in 16 point at the top, a line of body text with a number line under it, one
  table found by the primitive extractor, and the same image reported twice.
\<close>

definition example_page :: page where
  "example_page =
     \<lparr>page_chars =
        [\<lparr>ch_text = ''Re'', ch_top = 10, ch_size = 16\<rparr>,
         \<lparr>ch_text = ''sults'', ch_top = 41 / 4, ch_size = 16\<rparr>,
         \<lparr>ch_text = ''1 234'', ch_top = 50, ch_size = 10\<rparr>,
         \<lparr>ch_text = ''Total'', ch_top = 30, ch_size = 10\<rparr>],
      page_images =
        [\<lparr>img_x0 = 0, img_top = 20, img_x1 = 100, img_bottom = 25\<rparr>,
         \<lparr>img_x0 = 0, img_top = 20, img_x1 = 100, img_bottom = 25\<rparr>],
      page_extract_tables = [[[Some ''a'', None]], [[Some '''', None]]]\<rparr>"

section \<open>The dominant font size\<close>

lemma get_count_update:
  "get_count (AList.update k v d) k' = (if k' = k then v else get_count d k')"
  by (simp add: get_count_def update_conv')

lemma keys_incr: "fst ` set (incr k d) = insert k (fst ` set d)"
  by (simp add: incr_def dom_update)

lemma distinct_incr: "distinct (map fst d) \<Longrightarrow> distinct (map fst (incr k d))"
  by (simp add: incr_def distinct_update)

lemma fold_incr_count:
  "get_count (fold (\<lambda>ch d. incr (py_round (ch_size ch)) d) cs d) k =
     get_count d k + size_count cs k"
  by (induction cs arbitrary: d) (auto simp: size_count_def incr_def get_count_update)

lemma fold_incr_keys:
  "fst ` set (fold (\<lambda>ch d. incr (py_round (ch_size ch)) d) cs d) =
     fst ` set d \<union> (\<lambda>ch. py_round (ch_size ch)) ` set cs"
  by (induction cs arbitrary: d) (auto simp: keys_incr)

lemma get_count_font_sizes: "get_count (count_font_sizes cs) k = size_count cs k"
proof -
  have "get_count [] k = 0" by (simp add: get_count_def)
  then show ?thesis unfolding count_font_sizes_def fold_incr_count by simp
qed

lemma keys_font_sizes:
  "set (map fst (count_font_sizes cs)) = (\<lambda>ch. py_round (ch_size ch)) ` set cs"
  by (simp add: count_font_sizes_def fold_incr_keys)

lemma max_from_mem: "max_from f m xs \<in> set (m # xs)"
  by (induction xs arbitrary: m) auto

lemma max_from_ge_start: "f m \<le> f (max_from f m xs)"
proof (induction xs arbitrary: m)
  case Nil
  then show ?case by simp
next
  case (Cons x xs)
  show ?case
  proof (cases "f m < f x")
    case True
    then have "f m \<le> f x" by simp
    also have "f x \<le> f (max_from f x xs)" by (rule Cons.IH)
    finally show ?thesis using True by simp
  next
    case False
    then show ?thesis using Cons.IH [of m] by simp
  qed
qed

lemma max_from_ge: "y \<in> set (m # xs) \<Longrightarrow> f y \<le> f (max_from f m xs)"
proof (induction xs arbitrary: m)
  case Nil
  then show ?case by simp
next
  case (Cons x xs)
  show ?case
  proof (cases "f m < f x")
    case True
    have "f y \<le> f (max_from f x xs)"
    proof (cases "y = m")
      case True
      have "f m \<le> f x" using \<open>f m < f x\<close> by simp
      also have "f x \<le> f (max_from f x xs)" by (rule max_from_ge_start)
      finally show ?thesis using True by simp
    next
      case False
      then have "y \<in> set (x # xs)" using Cons.prems by simp
      then show ?thesis by (rule Cons.IH)
    qed
    then show ?thesis using True by simp
  next
    case False
    have "f y \<le> f (max_from f m xs)"
    proof (cases "y = x")
      case True
      have "f x \<le> f m" using False by simp
      also have "f m \<le> f (max_from f m xs)" by (rule max_from_ge_start)
      finally show ?thesis using True by simp
    next
      case False
      then have "y \<in> set (m # xs)" using Cons.prems by auto
      then show ?thesis by (rule Cons.IH)
    qed
    then show ?thesis using False by simp
  qed
qed

lemma dominant_size_props:
  assumes "cs \<noteq> []"
  shows "\<exists>d. dominant_size cs = Inr d \<and> d \<in> (\<lambda>ch. py_round (ch_size ch)) ` set cs \<and>
             (\<forall>s. size_count cs s \<le> size_count cs d)"
proof -
  let ?fs = "count_font_sizes cs"
  have ne: "map fst ?fs \<noteq> []"
    using assms keys_font_sizes [of cs] by (metis empty_is_image set_empty)
  then obtain k ks where ks: "map fst ?fs = k # ks" by (cases "map fst ?fs") auto
  let ?d = "max_from (get_count ?fs) k ks"
  have d: "dominant_size cs = Inr ?d"
    by (simp add: dominant_size_def py_max_def ks)
  have mem: "?d \<in> set (map fst ?fs)" unfolding ks by (rule max_from_mem)
  have ge: "size_count cs s \<le> size_count cs ?d" for s
  proof (cases "s \<in> set (k # ks)")
    case True
    then show ?thesis using max_from_ge [of s k ks "get_count ?fs"]
      by (simp add: get_count_font_sizes)
  next
    case False
    moreover have "set (k # ks) = (\<lambda>ch. py_round (ch_size ch)) ` set cs"
      using keys_font_sizes [of cs] ks by metis
    ultimately have "s \<notin> (\<lambda>ch. py_round (ch_size ch)) ` set cs"
      by blast
    then have "size_count cs s = 0" by (auto simp: size_count_def count_list_0_iff)
    then show ?thesis by simp
  qed
  show ?thesis using d mem ge keys_font_sizes [of cs] by auto
qed


lemma py_round_of_int [simp]: "py_round (of_int n) = n"
  by (simp add: py_round_def)

lemma py_round_numeral [simp]: "py_round (numeral n) = numeral n"
  using py_round_of_int [of "numeral n"] by simp

text \<open>
  C2. An empty character list has the role \<open>paragraph\<close>. For a non-empty one the
  dominant size is a rounded size of the list that no rounded size exceeds in its number of
  characters, and the role is \<open>section\<close> when it is at least 14, \<open>sub_section\<close>
  when it is at least 12, \<open>paragraph\<close> otherwise.
\<close>

theorem identify_text_role_dominant:
  "identify_text_role [] = Inr ''paragraph'' \<and>
   (cs \<noteq> [] \<longrightarrow>
      (\<exists>d. dominant_size cs = Inr d \<and>
           d \<in> (\<lambda>ch. py_round (ch_size ch)) ` set cs \<and>
           (\<forall>s. size_count cs s \<le> size_count cs d) \<and>
           identify_text_role cs =
             Inr (if d \<ge> 14 then ''section'' else if d \<ge> 12 then ''sub_section''
                  else ''paragraph'')))"
proof (intro conjI impI)
  show "identify_text_role [] = Inr ''paragraph''"
    by (simp add: identify_text_role_def)
next
  assume ne: "cs \<noteq> []"
  from dominant_size_props [OF ne] obtain d where
    d: "dominant_size cs = Inr d" "d \<in> (\<lambda>ch. py_round (ch_size ch)) ` set cs"
       "\<forall>s. size_count cs s \<le> size_count cs d"
    by blast
  have "identify_text_role cs =
          Inr (if d \<ge> 14 then ''section'' else if d \<ge> 12 then ''sub_section''
               else ''paragraph'')"
    using ne d(1)
    by (simp add: identify_text_role_def SECTION_FONT_SIZE_def SUBSECTION_FONT_SIZE_def)
  with d show "\<exists>d. dominant_size cs = Inr d \<and>
           d \<in> (\<lambda>ch. py_round (ch_size ch)) ` set cs \<and>
           (\<forall>s. size_count cs s \<le> size_count cs d) \<and>
           identify_text_role cs =
             Inr (if d \<ge> 14 then ''section'' else if d \<ge> 12 then ''sub_section''
                  else ''paragraph'')"
    by blast
qed

theorem identify_text_role_dominant_witness:
  "[\<lparr>ch_text = ''T'', ch_top = 1, ch_size = 16\<rparr>,
    \<lparr>ch_text = ''o'', ch_top = 1, ch_size = 16\<rparr>,
    \<lparr>ch_text = ''1'', ch_top = 1, ch_size = 10\<rparr>] \<noteq> [] \<and>
   (\<exists>d. dominant_size [\<lparr>ch_text = ''T'', ch_top = 1, ch_size = 16\<rparr>,
                         \<lparr>ch_text = ''o'', ch_top = 1, ch_size = 16\<rparr>,
                         \<lparr>ch_text = ''1'', ch_top = 1, ch_size = 10\<rparr>] = Inr d \<and>
        identify_text_role [\<lparr>ch_text = ''T'', ch_top = 1, ch_size = 16\<rparr>,
                            \<lparr>ch_text = ''o'', ch_top = 1, ch_size = 16\<rparr>,
                            \<lparr>ch_text = ''1'', ch_top = 1, ch_size = 10\<rparr>] =
          Inr (if d \<ge> 14 then ''section'' else if d \<ge> 12 then ''sub_section''
               else ''paragraph''))"
  using identify_text_role_dominant
    [of "[\<lparr>ch_text = ''T'', ch_top = 1, ch_size = 16\<rparr>,
          \<lparr>ch_text = ''o'', ch_top = 1, ch_size = 16\<rparr>,
          \<lparr>ch_text = ''1'', ch_top = 1, ch_size = 10\<rparr>]"]
  by blast


lemma size_count_mset:
  "size_count cs s = count (mset (map (\<lambda>ch. py_round (ch_size ch)) cs)) s"
  by (simp only: size_count_def count_mset)

lemma dominant_size_Nil: "dominant_size [] = Inl ValueError"
  by (simp add: dominant_size_def count_font_sizes_def py_max_def)

text \<open>
  C9, amended. Two character lists whose rounded font sizes form the same multiset have the
  same dominant size and the same role, provided one rounded size has strictly more
  characters than every other. (Among sizes that tie for the highest count, the one whose
  first character comes first in the list is dominant, so the order of the list decides.)
\<close>

theorem dominant_size_same_multiset:
  assumes same: "mset (map (\<lambda>ch. py_round (ch_size ch)) cs1) =
                 mset (map (\<lambda>ch. py_round (ch_size ch)) cs2)"
    and dom: "dominant_size cs1 = Inr d"
    and uniq: "\<forall>s. s \<noteq> d \<longrightarrow> size_count cs1 s < size_count cs1 d"
  shows "dominant_size cs2 = Inr d \<and> identify_text_role cs2 = identify_text_role cs1"
proof -
  have cnt: "size_count cs2 s = size_count cs1 s" for s
    by (simp only: size_count_mset same)
  have ne1: "cs1 \<noteq> []" using dom dominant_size_Nil by auto
  have ne2: "cs2 \<noteq> []" using ne1 same by auto
  from dominant_size_props [OF ne2] obtain d2 where
    d2: "dominant_size cs2 = Inr d2" "\<forall>s. size_count cs2 s \<le> size_count cs2 d2"
    by blast
  have "d2 = d"
  proof (rule ccontr)
    assume "d2 \<noteq> d"
    then have "size_count cs1 d2 < size_count cs1 d" using uniq by blast
    moreover have "size_count cs1 d \<le> size_count cs1 d2" using d2(2) cnt by simp
    ultimately show False by simp
  qed
  then have "dominant_size cs2 = Inr d" using d2(1) by simp
  then show ?thesis using dom ne1 ne2 by (simp add: identify_text_role_def)
qed

text \<open>Unfolding rules for evaluating the role of a concrete list.\<close>

lemmas role_eval = identify_text_role_def dominant_size_def count_font_sizes_def incr_def
  get_count_def py_max_def SECTION_FONT_SIZE_def SUBSECTION_FONT_SIZE_def size_count_def

theorem dominant_size_same_multiset_witness:
  "dominant_size [\<lparr>ch_text = ''a'', ch_top = 1, ch_size = 14\<rparr>,
                  \<lparr>ch_text = ''b'', ch_top = 1, ch_size = 12\<rparr>,
                  \<lparr>ch_text = ''c'', ch_top = 1, ch_size = 12\<rparr>] = Inr 12 \<and>
   identify_text_role [\<lparr>ch_text = ''a'', ch_top = 1, ch_size = 14\<rparr>,
                       \<lparr>ch_text = ''b'', ch_top = 1, ch_size = 12\<rparr>,
                       \<lparr>ch_text = ''c'', ch_top = 1, ch_size = 12\<rparr>] =
   identify_text_role [\<lparr>ch_text = ''b'', ch_top = 1, ch_size = 12\<rparr>,
                       \<lparr>ch_text = ''c'', ch_top = 1, ch_size = 12\<rparr>,
                       \<lparr>ch_text = ''a'', ch_top = 1, ch_size = 14\<rparr>]"
proof (rule dominant_size_same_multiset)
  show "mset (map (\<lambda>ch. py_round (ch_size ch))
          [\<lparr>ch_text = ''b'', ch_top = 1, ch_size = 12\<rparr>,
           \<lparr>ch_text = ''c'', ch_top = 1, ch_size = 12\<rparr>,
           \<lparr>ch_text = ''a'', ch_top = 1, ch_size = 14\<rparr>]) =
        mset (map (\<lambda>ch. py_round (ch_size ch))
          [\<lparr>ch_text = ''a'', ch_top = 1, ch_size = 14\<rparr>,
           \<lparr>ch_text = ''b'', ch_top = 1, ch_size = 12\<rparr>,
           \<lparr>ch_text = ''c'', ch_top = 1, ch_size = 12\<rparr>])"
    by simp
  show "dominant_size [\<lparr>ch_text = ''b'', ch_top = 1, ch_size = 12\<rparr>,
           \<lparr>ch_text = ''c'', ch_top = 1, ch_size = 12\<rparr>,
           \<lparr>ch_text = ''a'', ch_top = 1, ch_size = 14\<rparr>] = Inr 12"
    by (simp add: role_eval)
  show "\<forall>s. s \<noteq> 12 \<longrightarrow>
          size_count [\<lparr>ch_text = ''b'', ch_top = 1, ch_size = 12\<rparr>,
           \<lparr>ch_text = ''c'', ch_top = 1, ch_size = 12\<rparr>,
           \<lparr>ch_text = ''a'', ch_top = 1, ch_size = 14\<rparr>] s
          < size_count [\<lparr>ch_text = ''b'', ch_top = 1, ch_size = 12\<rparr>,
           \<lparr>ch_text = ''c'', ch_top = 1, ch_size = 12\<rparr>,
           \<lparr>ch_text = ''a'', ch_top = 1, ch_size = 14\<rparr>] 12"
    by (simp add: size_count_def)
qed

text \<open>
  C9 as stated fails: sizes 12, 14 and sizes 14, 12 are the same multiset, with dominant
  sizes 12 and 14 and roles \<open>sub_section\<close> and \<open>section\<close>.
\<close>

theorem dominant_size_order_counterexample:
  "mset (map (\<lambda>ch. py_round (ch_size ch))
      [\<lparr>ch_text = ''a'', ch_top = 1, ch_size = 12\<rparr>,
       \<lparr>ch_text = ''b'', ch_top = 1, ch_size = 14\<rparr>]) =
   mset (map (\<lambda>ch. py_round (ch_size ch))
      [\<lparr>ch_text = ''b'', ch_top = 1, ch_size = 14\<rparr>,
       \<lparr>ch_text = ''a'', ch_top = 1, ch_size = 12\<rparr>]) \<and>
   dominant_size [\<lparr>ch_text = ''a'', ch_top = 1, ch_size = 12\<rparr>,
                  \<lparr>ch_text = ''b'', ch_top = 1, ch_size = 14\<rparr>] = Inr 12 \<and>
   dominant_size [\<lparr>ch_text = ''b'', ch_top = 1, ch_size = 14\<rparr>,
                  \<lparr>ch_text = ''a'', ch_top = 1, ch_size = 12\<rparr>] = Inr 14 \<and>
   identify_text_role [\<lparr>ch_text = ''a'', ch_top = 1, ch_size = 12\<rparr>,
                       \<lparr>ch_text = ''b'', ch_top = 1, ch_size = 14\<rparr>] = Inr ''sub_section'' \<and>
   identify_text_role [\<lparr>ch_text = ''b'', ch_top = 1, ch_size = 14\<rparr>,
                       \<lparr>ch_text = ''a'', ch_top = 1, ch_size = 12\<rparr>] = Inr ''section''"
  by (simp add: role_eval)

section \<open>The loop over the lines of a page\<close>







lemma identify_text_role_total:
  "\<exists>r. identify_text_role cs = Inr r \<and> r \<in> {''section'', ''sub_section'', ''paragraph''}"
proof (cases "cs = []")
  case True
  then show ?thesis by (simp add: identify_text_role_def)
next
  case False
  from dominant_size_props [OF False] obtain d where "dominant_size cs = Inr d" by blast
  then show ?thesis using False by (simp add: identify_text_role_def)
qed

lemma track_section_content [simp]:
  "page_content (track_section r t st) = page_content st"
  "previous_entry (track_section r t st) = previous_entry st"
  by (simp_all add: track_section_def)

lemma line_inv_track: "line_inv (track_section r t st) = line_inv st"
  by (simp add: line_inv_def)

lemma append_text_paragraph:
  "append_text (paragraph_entry sec sub t tp) s = Inr (paragraph_entry sec sub (t @ s) tp)"
  by (simp add: append_text_def paragraph_entry_def)

lemma list_update_last: "xs \<noteq> [] \<Longrightarrow> xs[length xs - Suc 0 := x] = butlast xs @ [x]"
  by (induction xs rule: rev_induct) auto

lemma line_inv_last:
  assumes "line_inv st" and "page_content st \<noteq> []"
  shows "\<exists>sec sub t tp. last (page_content st) = paragraph_entry sec sub t tp"
proof -
  have "last (page_content st) \<in> set (page_content st)" using assms(2) by simp
  then show ?thesis using assms(1) by (auto simp: line_inv_def list_all_iff)
qed

lemma emit_number_line:
  assumes inv: "line_inv st" and ne: "page_content st \<noteq> []" and num: "is_number_line ltxt"
    and lst: "last (page_content st) = paragraph_entry sec sub t tp0"
  shows "emit_line ltxt tp st =
           Inr (st\<lparr>page_content :=
                     butlast (page_content st) @ [paragraph_entry sec sub (t @ '' '' @ ltxt) tp0]\<rparr>)"
proof -
  have prev: "previous_entry st = Some (length (page_content st) - 1)"
    using inv ne by (simp add: line_inv_def)
  have nth: "page_content st ! (length (page_content st) - 1) = paragraph_entry sec sub t tp0"
    using lst ne by (simp add: last_conv_nth)
  show ?thesis
    using num prev nth ne
    by (simp add: emit_line_def append_text_paragraph list_update_last)
qed

lemma emit_new_entry:
  assumes "\<not> is_number_line ltxt \<or> page_content st = []" and inv: "line_inv st"
  shows "emit_line ltxt tp st =
           Inr (st\<lparr>page_content :=
                     page_content st @
                     [paragraph_entry (current_section st) (current_sub_section st) ltxt tp],
                   previous_entry := Some (length (page_content st))\<rparr>)"
proof -
  have "(if is_number_line ltxt then previous_entry st else None) = None"
    using assms by (auto simp: line_inv_def)
  then show ?thesis by (simp add: emit_line_def)
qed

lemma line_inv_emit:
  assumes "line_inv st" and "emit_line ltxt tp st = Inr st'"
  shows "line_inv st'"
proof (cases "is_number_line ltxt \<and> page_content st \<noteq> []")
  case True
  from line_inv_last [OF assms(1)] True obtain sec sub t tp0 where
    lst: "last (page_content st) = paragraph_entry sec sub t tp0" by blast
  have "st' = st\<lparr>page_content :=
                     butlast (page_content st) @ [paragraph_entry sec sub (t @ '' '' @ ltxt) tp0]\<rparr>"
    using emit_number_line [of st ltxt sec sub t tp0 tp] lst True assms by simp
  moreover have "list_all (\<lambda>e. \<exists>sec sub t tp. e = paragraph_entry sec sub t tp)
                   (butlast (page_content st))"
    using assms(1) by (auto simp: line_inv_def list_all_iff dest: in_set_butlastD)
  ultimately show ?thesis using assms(1) True by (auto simp: line_inv_def)
next
  case False
  then have "st' = st\<lparr>page_content :=
                     page_content st @
                     [paragraph_entry (current_section st) (current_sub_section st) ltxt tp],
                   previous_entry := Some (length (page_content st))\<rparr>"
    using emit_new_entry [where ltxt = ltxt and tp = tp, OF _ assms(1)] assms(2) by auto
  then show ?thesis using assms(1) by (auto simp: line_inv_def)
qed

lemma line_inv_process_line:
  assumes "line_inv st" and "process_line st line = Inr st'"
  shows "line_inv st'"
proof -
  obtain r where r: "identify_text_role (snd line) = Inr r"
    using identify_text_role_total by blast
  show ?thesis
    using assms r line_inv_emit [of "track_section r (line_text_of (snd line)) st"
        "line_text_of (snd line)" "fst line" st']
    by (auto simp: process_line_def Let_def line_inv_track split: if_splits)
qed

lemma line_inv_init: "line_inv init_state"
  by (simp add: line_inv_def init_state_def)

lemma line_inv_process_lines:
  "line_inv st \<Longrightarrow> process_lines st ls = Inr st' \<Longrightarrow> line_inv st'"
proof (induction ls arbitrary: st)
  case Nil
  then show ?case by simp
next
  case (Cons l ls)
  then show ?case
    by (auto split: sum.splits dest: line_inv_process_line)
qed

lemma emit_line_total: "line_inv st \<Longrightarrow> \<exists>st'. emit_line ltxt tp st = Inr st'"
proof (cases "is_number_line ltxt \<and> page_content st \<noteq> []")
  case True
  assume inv: "line_inv st"
  from line_inv_last [OF inv] True obtain sec sub t tp0 where
    lst: "last (page_content st) = paragraph_entry sec sub t tp0" by blast
  show ?thesis using emit_number_line [of st ltxt sec sub t tp0 tp] lst inv True by simp
next
  case False
  assume inv: "line_inv st"
  show ?thesis using emit_new_entry [where ltxt = ltxt and tp = tp, OF _ inv] False by auto
qed

lemma process_line_total: "line_inv st \<Longrightarrow> \<exists>st'. process_line st line = Inr st'"
proof -
  assume inv: "line_inv st"
  obtain r where r: "identify_text_role (snd line) = Inr r"
    using identify_text_role_total by blast
  have "line_inv (track_section r (line_text_of (snd line)) st)"
    using inv by (simp add: line_inv_track)
  from emit_line_total [OF this] show ?thesis
    using r by (simp add: process_line_def Let_def)
qed

lemma process_lines_total: "line_inv st \<Longrightarrow> \<exists>st'. process_lines st ls = Inr st'"
proof (induction ls arbitrary: st)
  case Nil
  then show ?case by simp
next
  case (Cons l ls)
  from process_line_total [OF Cons.prems] obtain st1 where
    st1: "process_line st l = Inr st1" by blast
  then have "line_inv st1" using Cons.prems line_inv_process_line by blast
  from Cons.IH [OF this] show ?case using st1 by simp
qed





text \<open>Unfolding rules for evaluating the loop on concrete lines.\<close>

lemmas text_eval = line_text_of_def strip_def is_space_def is_header_footer_def isupper_def
  is_upper_char_def is_lower_char_def split_def is_number_line_def replace_char_def
  isdigit_def is_digit_char_def

lemmas line_eval = process_line_def init_state_def track_section_def emit_line_def
  append_text_def paragraph_entry_def opt_str_def




lemma process_line_kept:
  assumes "line_text_of cs \<noteq> []" and "\<not> is_header_footer (line_text_of cs)"
    and "identify_text_role cs = Inr r"
  shows "process_line st (tp, cs) =
           emit_line (line_text_of cs) tp (track_section r (line_text_of cs) st)"
  using assms by (simp add: process_line_def Let_def)





lemma paragraph_entry_fields:
  "map_of (paragraph_entry sec sub t tp) ''type'' = Some (PyStr ''paragraph'')"
  "map_of (paragraph_entry sec sub t tp) ''section'' = Some (opt_str sec)"
  "map_of (paragraph_entry sec sub t tp) ''sub_section'' = Some (opt_str sub)"
  "map_of (paragraph_entry sec sub t tp) ''text'' = Some (PyStr t)"
  "map_of (paragraph_entry sec sub t tp) ''top'' = Some (PyInt tp)"
  by (simp_all add: paragraph_entry_def)

lemma reachable_inv: "process_lines init_state ls = Inr st \<Longrightarrow> line_inv st"
  using line_inv_process_lines [OF line_inv_init] by blast

lemma line_inv_types:
  "line_inv st \<Longrightarrow>
     list_all (\<lambda>e. map_of e ''type'' = Some (PyStr ''paragraph'')) (page_content st)"
  by (auto simp: line_inv_def list_all_iff paragraph_entry_fields)

lemma new_entry_step:
  assumes inv: "line_inv st"
    and ne: "line_text_of cs \<noteq> []" and nh: "\<not> is_header_footer (line_text_of cs)"
    and nm: "\<not> (is_number_line (line_text_of cs) \<and> page_content st \<noteq> [])"
    and r: "identify_text_role cs = Inr r"
  shows "process_line st (tp, cs) =
           Inr ((track_section r (line_text_of cs) st)
                \<lparr>page_content :=
                   page_content st @
                   [paragraph_entry
                      (current_section (track_section r (line_text_of cs) st))
                      (current_sub_section (track_section r (line_text_of cs) st))
                      (line_text_of cs) tp],
                 previous_entry := Some (length (page_content st))\<rparr>)"
proof -
  let ?st1 = "track_section r (line_text_of cs) st"
  have "emit_line (line_text_of cs) tp ?st1 =
          Inr (?st1\<lparr>page_content :=
                     page_content ?st1 @
                     [paragraph_entry (current_section ?st1) (current_sub_section ?st1)
                        (line_text_of cs) tp],
                   previous_entry := Some (length (page_content ?st1))\<rparr>)"
    by (rule emit_new_entry) (use nm inv in \<open>auto simp: line_inv_track\<close>)
  then show ?thesis using process_line_kept [OF ne nh r, of st tp] by simp
qed

text \<open>
  C10. In every state the loop reaches, each entry of \<open>page_content\<close> has the type
  \<open>paragraph\<close>. A line that is kept and not merged and whose role is \<open>section\<close>
  is appended as an entry of type \<open>paragraph\<close> whose \<open>section\<close> is the line's own
  text; with the role \<open>sub_section\<close>, an entry of type \<open>paragraph\<close> whose
  \<open>sub_section\<close> is the line's own text.
\<close>

theorem text_entries_are_paragraphs:
  "(process_lines init_state ls = Inr st \<longrightarrow>
      list_all (\<lambda>e. map_of e ''type'' = Some (PyStr ''paragraph'')) (page_content st)) \<and>
   (process_lines init_state ls = Inr st \<and>
    line_text_of cs1 \<noteq> [] \<and> \<not> is_header_footer (line_text_of cs1) \<and>
    \<not> (is_number_line (line_text_of cs1) \<and> page_content st \<noteq> []) \<and>
    identify_text_role cs1 = Inr ''section'' \<longrightarrow>
      (\<exists>st' e. process_line st (tp1, cs1) = Inr st' \<and>
          page_content st' = page_content st @ [e] \<and>
          map_of e ''type'' = Some (PyStr ''paragraph'') \<and>
          map_of e ''section'' = Some (PyStr (line_text_of cs1)))) \<and>
   (process_lines init_state ls = Inr st \<and>
    line_text_of cs2 \<noteq> [] \<and> \<not> is_header_footer (line_text_of cs2) \<and>
    \<not> (is_number_line (line_text_of cs2) \<and> page_content st \<noteq> []) \<and>
    identify_text_role cs2 = Inr ''sub_section'' \<longrightarrow>
      (\<exists>st' e. process_line st (tp2, cs2) = Inr st' \<and>
          page_content st' = page_content st @ [e] \<and>
          map_of e ''type'' = Some (PyStr ''paragraph'') \<and>
          map_of e ''sub_section'' = Some (PyStr (line_text_of cs2))))"
proof (intro conjI impI)
  assume "process_lines init_state ls = Inr st"
  then show "list_all (\<lambda>e. map_of e ''type'' = Some (PyStr ''paragraph'')) (page_content st)"
    by (intro line_inv_types reachable_inv)
next
  assume a: "process_lines init_state ls = Inr st \<and>
    line_text_of cs1 \<noteq> [] \<and> \<not> is_header_footer (line_text_of cs1) \<and>
    \<not> (is_number_line (line_text_of cs1) \<and> page_content st \<noteq> []) \<and>
    identify_text_role cs1 = Inr ''section''"
  then have inv: "line_inv st" using reachable_inv by blast
  have "process_line st (tp1, cs1) =
           Inr ((track_section ''section'' (line_text_of cs1) st)
                \<lparr>page_content :=
                   page_content st @
                   [paragraph_entry
                      (current_section (track_section ''section'' (line_text_of cs1) st))
                      (current_sub_section (track_section ''section'' (line_text_of cs1) st))
                      (line_text_of cs1) tp1],
                 previous_entry := Some (length (page_content st))\<rparr>)"
    using a by (intro new_entry_step inv) simp_all
  then show "\<exists>st' e. process_line st (tp1, cs1) = Inr st' \<and>
          page_content st' = page_content st @ [e] \<and>
          map_of e ''type'' = Some (PyStr ''paragraph'') \<and>
          map_of e ''section'' = Some (PyStr (line_text_of cs1))"
    by (simp add: paragraph_entry_fields track_section_def opt_str_def)
next
  assume a: "process_lines init_state ls = Inr st \<and>
    line_text_of cs2 \<noteq> [] \<and> \<not> is_header_footer (line_text_of cs2) \<and>
    \<not> (is_number_line (line_text_of cs2) \<and> page_content st \<noteq> []) \<and>
    identify_text_role cs2 = Inr ''sub_section''"
  then have inv: "line_inv st" using reachable_inv by blast
  have "process_line st (tp2, cs2) =
           Inr ((track_section ''sub_section'' (line_text_of cs2) st)
                \<lparr>page_content :=
                   page_content st @
                   [paragraph_entry
                      (current_section (track_section ''sub_section'' (line_text_of cs2) st))
                      (current_sub_section (track_section ''sub_section'' (line_text_of cs2) st))
                      (line_text_of cs2) tp2],
                 previous_entry := Some (length (page_content st))\<rparr>)"
    using a by (intro new_entry_step inv) simp_all
  then show "\<exists>st' e. process_line st (tp2, cs2) = Inr st' \<and>
          page_content st' = page_content st @ [e] \<and>
          map_of e ''type'' = Some (PyStr ''paragraph'') \<and>
          map_of e ''sub_section'' = Some (PyStr (line_text_of cs2))"
    by (simp add: paragraph_entry_fields track_section_def opt_str_def)
qed

theorem text_entries_are_paragraphs_witness:
  "list_all (\<lambda>e. map_of e ''type'' = Some (PyStr ''paragraph'')) (page_content init_state) \<and>
   (\<exists>st' e. process_line init_state
               (10, [\<lparr>ch_text = ''Results'', ch_top = 10, ch_size = 16\<rparr>]) = Inr st' \<and>
          page_content st' = page_content init_state @ [e] \<and>
          map_of e ''type'' = Some (PyStr ''paragraph'') \<and>
          map_of e ''section'' = Some (PyStr ''Results'')) \<and>
   (\<exists>st' e. process_line init_state
               (20, [\<lparr>ch_text = ''Method'', ch_top = 20, ch_size = 12\<rparr>]) = Inr st' \<and>
          page_content st' = page_content init_state @ [e] \<and>
          map_of e ''type'' = Some (PyStr ''paragraph'') \<and>
          map_of e ''sub_section'' = Some (PyStr ''Method''))"
proof -
  have h0: "process_lines init_state [] = Inr init_state" by simp
  have h1: "line_text_of [\<lparr>ch_text = ''Results'', ch_top = 10, ch_size = 16\<rparr>] = ''Results''"
    by (simp add: text_eval)
  have h2: "line_text_of [\<lparr>ch_text = ''Method'', ch_top = 20, ch_size = 12\<rparr>] = ''Method''"
    by (simp add: text_eval)
  have h3: "\<not> is_header_footer ''Results'' \<and> \<not> is_header_footer ''Method''"
    by (simp add: text_eval)
  have h4: "page_content init_state = []" by (simp add: init_state_def)
  have h5: "identify_text_role [\<lparr>ch_text = ''Results'', ch_top = 10, ch_size = 16\<rparr>] =
              Inr ''section''"
    by (simp add: role_eval)
  have h6: "identify_text_role [\<lparr>ch_text = ''Method'', ch_top = 20, ch_size = 12\<rparr>] =
              Inr ''sub_section''"
    by (simp add: role_eval)
  show ?thesis
    using text_entries_are_paragraphs
      [of "[]" init_state "[\<lparr>ch_text = ''Results'', ch_top = 10, ch_size = 16\<rparr>]" 10
          "[\<lparr>ch_text = ''Method'', ch_top = 20, ch_size = 12\<rparr>]" 20]
      h0 h3 h5 h6
    unfolding h1 h2 by (simp add: h4)
qed





section \<open>Charts\<close>

lemma find_append_if:
  "List.find P (xs @ ys) = (case List.find P xs of None \<Rightarrow> List.find P ys | Some x \<Rightarrow> Some x)"
  by (induction xs) auto

lemma dedup_loop_spec:
  assumes "\<forall>c \<in> set cs. \<exists>k. bbox_key c = Inr k"
    and "seen = {k. Inr k \<in> bbox_key ` set unique}"
    and "distinct (map bbox_key unique)"
  shows "\<exists>vs. dedup_loop seen unique cs = Inr (unique @ vs) \<and>
           distinct (map bbox_key (unique @ vs)) \<and>
           subseq vs cs \<and>
           (\<forall>k. List.find (\<lambda>c. bbox_key c = Inr k) (unique @ vs) =
                List.find (\<lambda>c. bbox_key c = Inr k) (unique @ cs))"
  using assms
proof (induction cs arbitrary: seen unique)
  case Nil
  then show ?case by simp
next
  case (Cons ch cs)
  obtain k where k: "bbox_key ch = Inr k" using Cons.prems(1) by auto
  have rest: "\<forall>c \<in> set cs. \<exists>k. bbox_key c = Inr k" using Cons.prems(1) by simp
  show ?case
  proof (cases "k \<in> seen")
    case False
    have seen': "insert k seen = {k'. Inr k' \<in> bbox_key ` set (unique @ [ch])}"
      using Cons.prems(2) k by auto
    have "Inr k \<notin> bbox_key ` set unique" using False Cons.prems(2) by simp
    then have dist': "distinct (map bbox_key (unique @ [ch]))"
      using Cons.prems(3) k by simp
    from Cons.IH [OF rest seen' dist'] obtain vs where
      vs: "dedup_loop (insert k seen) (unique @ [ch]) cs = Inr ((unique @ [ch]) @ vs)"
          "distinct (map bbox_key ((unique @ [ch]) @ vs))"
          "subseq vs cs"
          "\<forall>k. List.find (\<lambda>c. bbox_key c = Inr k) ((unique @ [ch]) @ vs) =
               List.find (\<lambda>c. bbox_key c = Inr k) ((unique @ [ch]) @ cs)"
      by blast
    have "dedup_loop seen unique (ch # cs) = Inr (unique @ (ch # vs))"
      using vs(1) k False by simp
    moreover have "distinct (map bbox_key (unique @ (ch # vs)))" using vs(2) by simp
    moreover have "subseq (ch # vs) (ch # cs)" using vs(3) by simp
    moreover have "\<forall>k. List.find (\<lambda>c. bbox_key c = Inr k) (unique @ (ch # vs)) =
               List.find (\<lambda>c. bbox_key c = Inr k) (unique @ (ch # cs))"
      using vs(4) by simp
    ultimately show ?thesis by blast
  next
    case True
    from Cons.IH [OF rest Cons.prems(2) Cons.prems(3)] obtain vs where
      vs: "dedup_loop seen unique cs = Inr (unique @ vs)"
          "distinct (map bbox_key (unique @ vs))"
          "subseq vs cs"
          "\<forall>k. List.find (\<lambda>c. bbox_key c = Inr k) (unique @ vs) =
               List.find (\<lambda>c. bbox_key c = Inr k) (unique @ cs)"
      by blast
    have "dedup_loop seen unique (ch # cs) = Inr (unique @ vs)"
      using vs(1) k True by simp
    moreover have "subseq vs (ch # cs)" using vs(3) by (rule list_emb_Cons)
    moreover have "List.find (\<lambda>c. bbox_key c = Inr k') (unique @ vs) =
               List.find (\<lambda>c. bbox_key c = Inr k') (unique @ (ch # cs))" for k'
    proof (cases "k' = k")
      case True
      have "\<exists>x. x \<in> set unique \<and> bbox_key x = Inr k"
        using \<open>k \<in> seen\<close> Cons.prems(2) by auto
      then have "List.find (\<lambda>c. bbox_key c = Inr k) unique \<noteq> None"
        by (simp add: find_None_iff)
      then show ?thesis using True by (auto simp: find_append_if)
    next
      case False
      then have "bbox_key ch \<noteq> Inr k'" using k by simp
      then show ?thesis using vs(4) [rule_format, of k']
        by (simp add: find_append_if split: option.splits)
    qed
    ultimately show ?thesis using vs(2) by blast
  qed
qed

lemma bbox_key_chart_entry:
  "bbox_key (chart_entry sec sub n img) =
     Inr [py_round1 (img_x0 img), py_round1 (img_top img), py_round1 (img_x1 img),
          py_round1 (img_bottom img)]"
  by (simp add: bbox_key_def chart_entry_def)

lemma deduplicate_charts_spec:
  assumes "\<forall>c \<in> set cs. \<exists>k. bbox_key c = Inr k"
  shows "\<exists>us. deduplicate_charts cs = Inr us \<and>
           distinct (map bbox_key us) \<and>
           subseq us cs \<and>
           (\<forall>k. List.find (\<lambda>c. bbox_key c = Inr k) us =
                List.find (\<lambda>c. bbox_key c = Inr k) cs)"
  using dedup_loop_spec [OF assms, of "{}" "[]"] by (simp add: deduplicate_charts_def)



section \<open>The entries of a page\<close>

lemma chart_entries_total:
  "\<exists>charts. chart_entries n pg sec sub = Inr charts \<and>
     set charts \<subseteq> set (map (chart_entry sec sub n) (page_images pg))"
proof -
  have "\<forall>c \<in> set (map (chart_entry sec sub n) (page_images pg)). \<exists>k. bbox_key c = Inr k"
    by (simp add: bbox_key_chart_entry)
  from deduplicate_charts_spec [OF this] obtain us where
    us: "deduplicate_charts (map (chart_entry sec sub n) (page_images pg)) = Inr us"
        "subseq us (map (chart_entry sec sub n) (page_images pg))"
    by blast
  have "set us \<subseteq> set (map (chart_entry sec sub n) (page_images pg))"
    using us(2) by (auto elim: list_emb_set)
  then show ?thesis using us(1) by (simp add: chart_entries_def)
qed

lemma lines_total: "\<exists>st. process_lines init_state ls = Inr st"
  using process_lines_total [OF line_inv_init] .

lemma page_entries_result:
  assumes "process_lines init_state (sorted_lines (page_chars pg)) = Inr st"
  shows "\<exists>charts.
           chart_entries (i + 1) pg (current_section st) (current_sub_section st) = Inr charts \<and>
           page_entries camelot pdf_path i pg =
             Inr (page_content st @
                  table_entries camelot pdf_path (i + 1) pg
                    (current_section st) (current_sub_section st) @
                  charts)"
proof -
  obtain charts where
    "chart_entries (i + 1) pg (current_section st) (current_sub_section st) = Inr charts"
    using chart_entries_total by blast
  then show ?thesis using assms by (simp add: page_entries_def Let_def)
qed

lemma page_entries_total: "\<exists>es. page_entries camelot pdf_path i pg = Inr es"
  using lines_total [of "sorted_lines (page_chars pg)"] page_entries_result by blast

lemma parse_page_total:
  "\<exists>out. parse_page camelot pdf_path i pg = Inr out \<and> page_number out = i + 1"
  using page_entries_total [of camelot pdf_path i pg] by (auto simp: parse_page_def)


lemma example_lines:
  "sorted_lines (page_chars example_page) =
     [(10, [\<lparr>ch_text = ''Re'', ch_top = 10, ch_size = 16\<rparr>,
            \<lparr>ch_text = ''sults'', ch_top = 41 / 4, ch_size = 16\<rparr>]),
      (30, [\<lparr>ch_text = ''Total'', ch_top = 30, ch_size = 10\<rparr>]),
      (50, [\<lparr>ch_text = ''1 234'', ch_top = 50, ch_size = 10\<rparr>])]"
  by (simp add: example_page_def sorted_lines_def add_char_def get_line_def py_round_def)

lemma example_state:
  "process_lines init_state (sorted_lines (page_chars example_page)) =
     Inr \<lparr>page_content =
            [paragraph_entry (Some ''Results'') None ''Results'' 10,
             paragraph_entry (Some ''Results'') None ''Total 1 234'' 30],
          current_section = Some ''Results'', current_sub_section = None,
          previous_entry = Some 1\<rparr>"
  unfolding example_lines
  by (simp add: line_eval text_eval role_eval py_round_def Let_def)

lemma example_parse_page:
  "parse_page None ''f.pdf'' 0 example_page =
     Inr \<lparr>page_number = 1,
          content =
            [paragraph_entry (Some ''Results'') None ''Results'' 10,
             chart_entry (Some ''Results'') None 1
               \<lparr>img_x0 = 0, img_top = 20, img_x1 = 100, img_bottom = 25\<rparr>,
             paragraph_entry (Some ''Results'') None ''Total 1 234'' 30,
             table_entry (Some ''Results'') None [[Some ''a'', None]]]\<rparr>"
proof -
  have "page_entries None ''f.pdf'' 0 example_page =
     Inr [paragraph_entry (Some ''Results'') None ''Results'' 10,
          paragraph_entry (Some ''Results'') None ''Total 1 234'' 30,
          table_entry (Some ''Results'') None [[Some ''a'', None]],
          chart_entry (Some ''Results'') None 1
               \<lparr>img_x0 = 0, img_top = 20, img_x1 = 100, img_bottom = 25\<rparr>]"
    unfolding page_entries_def example_state
    by (simp add: example_page_def table_entries_def chart_entries_def
        extract_tables_with_camelot_def accept_grid_def cell_truthy_def deduplicate_charts_def
        bbox_key_chart_entry Let_def)
  then show ?thesis
    by (simp add: parse_page_def top_key_def paragraph_entry_def table_entry_def chart_entry_def)
qed


lemma table_entry_fields:
  "map_of (table_entry sec sub g) ''type'' = Some (PyStr ''table'')"
  "map_of (table_entry sec sub g) ''section'' = Some (opt_str sec)"
  "map_of (table_entry sec sub g) ''sub_section'' = Some (opt_str sub)"
  "map_of (table_entry sec sub g) ''table_data'' = Some (PyGrid g)"
  "map_of (table_entry sec sub g) ''top'' = Some PyNone"
  by (simp_all add: table_entry_def)

lemma chart_entry_fields:
  "map_of (chart_entry sec sub n img) ''type'' = Some (PyStr ''chart'')"
  "map_of (chart_entry sec sub n img) ''section'' = Some (opt_str sec)"
  "map_of (chart_entry sec sub n img) ''sub_section'' = Some (opt_str sub)"
  "map_of (chart_entry sec sub n img) ''top'' = Some (PyFloat (img_top img))"
  by (simp_all add: chart_entry_def)

lemma table_entries_fields:
  "e \<in> set (table_entries camelot pdf_path n pg sec sub) \<Longrightarrow>
     map_of e ''type'' = Some (PyStr ''table'') \<and>
     map_of e ''section'' = Some (opt_str sec) \<and>
     map_of e ''sub_section'' = Some (opt_str sub) \<and>
     map_of e ''top'' = Some PyNone"
  by (auto simp: table_entries_def Let_def table_entry_fields split: if_splits)






section \<open>Tables\<close>

lemma filter_sort_key_const:
  assumes "\<forall>x \<in> set xs. P x \<longrightarrow> f x = c"
  shows "filter P (sort_key f xs) = filter P xs"
proof -
  have "filter P (sort_key f xs) = filter P (filter (\<lambda>x. f x = c) (sort_key f xs))"
    using assms by (auto simp: filter_filter intro!: filter_cong)
  also have "\<dots> = filter P (filter (\<lambda>x. f x = c) xs)"
    by (simp only: sort_key_stable)
  also have "\<dots> = filter P xs"
    using assms by (auto simp: filter_filter intro!: filter_cong)
  finally show ?thesis .
qed

lemma top_key_table_entry: "top_key (table_entry sec sub g) = 1000000000"
  by (simp add: top_key_def table_entry_def)

lemma accept_grid_iff:
  "accept_grid g \<longleftrightarrow> (\<exists>row \<in> set g. \<exists>cell \<in> set row. \<exists>s. cell = Some s \<and> s \<noteq> [])"
  by (auto simp: accept_grid_def list_ex_iff cell_truthy_def split: option.splits)

lemma page_table_filter:
  assumes st: "process_lines init_state (sorted_lines (page_chars pg)) = Inr fin"
    and out: "parse_page camelot pdf_path i pg = Inr res"
  shows "filter (\<lambda>e. map_of e ''type'' = Some (PyStr ''table'')) (content res) =
           table_entries camelot pdf_path (i + 1) pg (current_section fin)
             (current_sub_section fin)"
proof -
  let ?T = "\<lambda>e. map_of e ''type'' = Some (PyStr ''table'')"
  let ?tables = "table_entries camelot pdf_path (i + 1) pg (current_section fin)
                   (current_sub_section fin)"
  from page_entries_result [OF st, of i camelot pdf_path] obtain charts where
    ch: "chart_entries (i + 1) pg (current_section fin) (current_sub_section fin) = Inr charts"
    and pe: "page_entries camelot pdf_path i pg = Inr (page_content fin @ ?tables @ charts)"
    by blast
  have sub: "set charts \<subseteq>
      set (map (chart_entry (current_section fin) (current_sub_section fin) (i + 1))
             (page_images pg))"
    using chart_entries_total [of "i + 1" pg "current_section fin" "current_sub_section fin"] ch
    by simp
  have c: "content res = sort_key top_key (page_content fin @ ?tables @ charts)"
    using out pe by (auto simp: parse_page_def)
  have par: "filter ?T (page_content fin) = []"
    using line_inv_types [OF reachable_inv [OF st]] by (auto simp: list_all_iff filter_empty_conv)
  have cht: "filter ?T charts = []"
    using sub by (auto simp: filter_empty_conv chart_entry_fields)
  have tab: "filter ?T ?tables = ?tables"
    using table_entries_fields [of _ camelot pdf_path "i + 1" pg] by (simp add: filter_id_conv)
  have key: "\<forall>x \<in> set (page_content fin @ ?tables @ charts). ?T x \<longrightarrow> top_key x = 1000000000"
  proof (intro ballI impI)
    fix x assume x: "x \<in> set (page_content fin @ ?tables @ charts)" and t: "?T x"
    have "x \<notin> set (page_content fin)" using par t by (auto simp: filter_empty_conv)
    moreover have "x \<notin> set charts" using cht t by (auto simp: filter_empty_conv)
    ultimately have "x \<in> set ?tables" using x by auto
    then show "top_key x = 1000000000"
      by (auto simp: table_entries_def Let_def top_key_table_entry split: if_splits)
  qed
  have "filter ?T (content res) = filter ?T (page_content fin @ ?tables @ charts)"
    unfolding c using key by (rule filter_sort_key_const)
  then show ?thesis using par cht tab by simp
qed

text \<open>
  C4. Without the engine, or when the engine raises, \<open>extract_tables_with_camelot\<close>
  returns no table, and otherwise the grids of the engine's tables; a page is parsed without
  error whatever the engine does. When the engine gave tables, the table entries of the page
  are those tables and the grids of the primitive extractor play no part; when it gave none,
  they are the accepted grids of the primitive extractor, a grid being accepted exactly when
  some row has a cell that is a non-empty string. So with no engine table and one grid, there
  is one table entry if the grid is accepted and none otherwise. The entries of type
  \<open>table\<close> in the page's content are these table entries, in this order.
\<close>

theorem table_resolution:
  "extract_tables_with_camelot None pdf_path n = [] \<and>
   (rp1 pdf_path (str_nat n) ''stream'' = Inl err \<longrightarrow>
      extract_tables_with_camelot (Some rp1) pdf_path n = []) \<and>
   (rp2 pdf_path (str_nat n) ''stream'' = Inr tables \<longrightarrow>
      extract_tables_with_camelot (Some rp2) pdf_path n = map data tables) \<and>
   (\<exists>out. parse_page camelot pdf_path i pg = Inr out) \<and>
   (extract_tables_with_camelot camelot1 pdf_path n \<noteq> [] \<longrightarrow>
      table_entries camelot1 pdf_path n pg sec sub =
        map (table_entry sec sub) (extract_tables_with_camelot camelot1 pdf_path n)) \<and>
   (extract_tables_with_camelot camelot2 pdf_path n = [] \<longrightarrow>
      table_entries camelot2 pdf_path n pg sec sub =
        map (table_entry sec sub) (filter accept_grid (page_extract_tables pg))) \<and>
   (accept_grid g \<longleftrightarrow> (\<exists>row \<in> set g. \<exists>cell \<in> set row. \<exists>s. cell = Some s \<and> s \<noteq> [])) \<and>
   (extract_tables_with_camelot camelot2 pdf_path n = [] \<and> page_extract_tables pg2 = [g] \<longrightarrow>
      table_entries camelot2 pdf_path n pg2 sec sub =
        (if accept_grid g then [table_entry sec sub g] else [])) \<and>
   (process_lines init_state (sorted_lines (page_chars pg)) = Inr fin \<and>
    parse_page camelot pdf_path i pg = Inr res \<longrightarrow>
      filter (\<lambda>e. map_of e ''type'' = Some (PyStr ''table'')) (content res) =
        table_entries camelot pdf_path (i + 1) pg (current_section fin)
          (current_sub_section fin))"
proof (intro conjI impI)
  show "extract_tables_with_camelot None pdf_path n = []"
    by (simp add: extract_tables_with_camelot_def)
  show "extract_tables_with_camelot (Some rp1) pdf_path n = []"
    if "rp1 pdf_path (str_nat n) ''stream'' = Inl err"
    using that by (simp add: extract_tables_with_camelot_def)
  show "extract_tables_with_camelot (Some rp2) pdf_path n = map data tables"
    if "rp2 pdf_path (str_nat n) ''stream'' = Inr tables"
    using that by (simp add: extract_tables_with_camelot_def)
  show "\<exists>out. parse_page camelot pdf_path i pg = Inr out"
    using parse_page_total by blast
  show "table_entries camelot1 pdf_path n pg sec sub =
        map (table_entry sec sub) (extract_tables_with_camelot camelot1 pdf_path n)"
    if "extract_tables_with_camelot camelot1 pdf_path n \<noteq> []"
    using that by (simp add: table_entries_def Let_def)
  show "table_entries camelot2 pdf_path n pg sec sub =
        map (table_entry sec sub) (filter accept_grid (page_extract_tables pg))"
    if "extract_tables_with_camelot camelot2 pdf_path n = []"
    using that by (simp add: table_entries_def Let_def)
  show "accept_grid g \<longleftrightarrow> (\<exists>row \<in> set g. \<exists>cell \<in> set row. \<exists>s. cell = Some s \<and> s \<noteq> [])"
    by (rule accept_grid_iff)
  show "table_entries camelot2 pdf_path n pg2 sec sub =
        (if accept_grid g then [table_entry sec sub g] else [])"
    if "extract_tables_with_camelot camelot2 pdf_path n = [] \<and> page_extract_tables pg2 = [g]"
    using that by (simp add: table_entries_def Let_def)
  show "filter (\<lambda>e. map_of e ''type'' = Some (PyStr ''table'')) (content res) =
        table_entries camelot pdf_path (i + 1) pg (current_section fin)
          (current_sub_section fin)"
    if "process_lines init_state (sorted_lines (page_chars pg)) = Inr fin \<and>
        parse_page camelot pdf_path i pg = Inr res"
    using that page_table_filter by blast
qed


theorem table_resolution_witness:
  "extract_tables_with_camelot (Some (\<lambda>p n f. Inl CamelotError)) ''f.pdf'' 1 = [] \<and>
   extract_tables_with_camelot (Some (\<lambda>p n f. Inr [\<lparr>data = [[Some ''x'']]\<rparr>])) ''f.pdf'' 1 =
     [[[Some ''x'']]] \<and>
   table_entries (Some (\<lambda>p n f. Inr [\<lparr>data = [[Some ''x'']]\<rparr>])) ''f.pdf'' 1 example_page
     None None = [table_entry None None [[Some ''x'']]] \<and>
   table_entries None ''f.pdf'' 1 example_page None None =
     [table_entry None None [[Some ''a'', None]]] \<and>
   accept_grid [[Some ''a'', None]] \<and>
   table_entries None ''f.pdf'' 1
     \<lparr>page_chars = [], page_images = [], page_extract_tables = [[[Some ''a'', None]]]\<rparr>
     None None = [table_entry None None [[Some ''a'', None]]] \<and>
   filter (\<lambda>e. map_of e ''type'' = Some (PyStr ''table''))
     [paragraph_entry (Some ''Results'') None ''Results'' 10,
      chart_entry (Some ''Results'') None 1
        \<lparr>img_x0 = 0, img_top = 20, img_x1 = 100, img_bottom = 25\<rparr>,
      paragraph_entry (Some ''Results'') None ''Total 1 234'' 30,
      table_entry (Some ''Results'') None [[Some ''a'', None]]] =
     table_entries None ''f.pdf'' 1 example_page (Some ''Results'') None"
proof -
  have h1: "extract_tables_with_camelot (Some (\<lambda>p n f. Inr [\<lparr>data = [[Some ''x'']]\<rparr>]))
              ''f.pdf'' 1 \<noteq> []"
    by (simp add: extract_tables_with_camelot_def)
  have h2: "extract_tables_with_camelot None ''f.pdf'' 1 = []"
    by (simp add: extract_tables_with_camelot_def)
  have h3: "filter accept_grid (page_extract_tables example_page) = [[[Some ''a'', None]]]"
    by (simp add: example_page_def accept_grid_def cell_truthy_def)
  have h4: "(\<exists>row \<in> set [[Some ''a'', None]]. \<exists>cell \<in> set row. \<exists>s. cell = Some s \<and> s \<noteq> [])"
    by simp
  show ?thesis
    using table_resolution
      [where pdf_path = "''f.pdf''" and n = 1
         and ?rp1.0 = "\<lambda>p n f. Inl CamelotError" and err = CamelotError
         and ?rp2.0 = "\<lambda>p n f. Inr [\<lparr>data = [[Some ''x'']]\<rparr>]"
         and tables = "[\<lparr>data = [[Some ''x'']]\<rparr>]"
         and camelot = None and i = 0 and pg = example_page
         and ?camelot1.0 = "Some (\<lambda>p n f. Inr [\<lparr>data = [[Some ''x'']]\<rparr>])"
         and sec = None and sub = None and ?camelot2.0 = None
         and g = "[[Some ''a'', None]]"
         and ?pg2.0 = "\<lparr>page_chars = [], page_images = [],
                         page_extract_tables = [[[Some ''a'', None]]]\<rparr>"
         and fin = "\<lparr>page_content =
                       [paragraph_entry (Some ''Results'') None ''Results'' 10,
                        paragraph_entry (Some ''Results'') None ''Total 1 234'' 30],
                     current_section = Some ''Results'', current_sub_section = None,
                     previous_entry = Some 1\<rparr>"
         and res = "\<lparr>page_number = 1,
                     content =
                       [paragraph_entry (Some ''Results'') None ''Results'' 10,
                        chart_entry (Some ''Results'') None 1
                          \<lparr>img_x0 = 0, img_top = 20, img_x1 = 100, img_bottom = 25\<rparr>,
                        paragraph_entry (Some ''Results'') None ''Total 1 234'' 30,
                        table_entry (Some ''Results'') None [[Some ''a'', None]]]\<rparr>"]
      h1 h2 h4 example_state example_parse_page
    unfolding h3
    by simp
qed

section \<open>The order of a page\<close>












section \<open>Missing input\<close>

lemma parse_pages_total: "\<exists>doc. parse_pages camelot pdf_path i acc pgs = Inr doc"
proof (induction pgs arbitrary: i acc)
  case Nil
  then show ?case by simp
next
  case (Cons pg pgs)
  obtain out where "parse_page camelot pdf_path i pg = Inr out"
    using parse_page_total by blast
  then show ?case using Cons.IH [of "i + 1" "acc @ [out]"] by simp
qed

text \<open>
  C8. When the input path does not exist, \<open>parse_pdf\<close> returns
  \<open>FileNotFoundError\<close>, whatever the engine; \<open>main\<close> then prints its two
  messages and leaves the files as they were, so no output file is created. (When the path
  holds a PDF, the document is parsed without error and \<open>main\<close> writes it to the
  output path.)
\<close>

theorem missing_input:
  "(fs pdf_path = None \<longrightarrow> parse_pdf camelot fs pdf_path = Inl FileNotFoundError) \<and>
   (files w input_pdf = None \<longrightarrow>
      main camelot input_pdf output_json w =
        w\<lparr>stdout := stdout w @
             [''Parsing '' @ [CHR 0x27] @ input_pdf @ [CHR 0x27] @ ''...'',
              ''Error: File not found: '' @ input_pdf]\<rparr> \<and>
      files (main camelot input_pdf output_json w) = files w) \<and>
   (files w1 input_pdf = Some (PdfFile pgs) \<longrightarrow>
      (\<exists>doc. parse_pdf camelot (files w1) input_pdf = Inr doc \<and>
         files (main camelot input_pdf output_json w1) =
           (files w1)(output_json \<mapsto> JsonFile doc)))"
proof (intro conjI impI)
  assume "fs pdf_path = None"
  then show "parse_pdf camelot fs pdf_path = Inl FileNotFoundError"
    by (simp add: parse_pdf_def)
next
  assume a: "files w input_pdf = None"
  then have "parse_pdf camelot (files w) input_pdf = Inl FileNotFoundError"
    by (simp add: parse_pdf_def)
  then show m: "main camelot input_pdf output_json w =
        w\<lparr>stdout := stdout w @
             [''Parsing '' @ [CHR 0x27] @ input_pdf @ [CHR 0x27] @ ''...'',
              ''Error: File not found: '' @ input_pdf]\<rparr>"
    by (simp add: main_def print_def error_message_def)
  show "files (main camelot input_pdf output_json w) = files w"
    unfolding m by simp
next
  assume a: "files w1 input_pdf = Some (PdfFile pgs)"
  obtain doc where doc: "parse_pages camelot input_pdf 0 [] pgs = Inr doc"
    using parse_pages_total by blast
  then have p: "parse_pdf camelot (files w1) input_pdf = Inr doc"
    using a by (simp add: parse_pdf_def)
  then have "files (main camelot input_pdf output_json w1) =
           (files w1)(output_json \<mapsto> JsonFile doc)"
    by (simp add: main_def print_def)
  then show "\<exists>doc. parse_pdf camelot (files w1) input_pdf = Inr doc \<and>
         files (main camelot input_pdf output_json w1) =
           (files w1)(output_json \<mapsto> JsonFile doc)"
    using p by blast
qed

theorem missing_input_witness:
  "parse_pdf None Map.empty ''in.pdf'' = Inl FileNotFoundError \<and>
   main None ''in.pdf'' ''out.json'' \<lparr>files = Map.empty, stdout = []\<rparr> =
     \<lparr>files = Map.empty,
      stdout = [''Parsing '' @ [CHR 0x27] @ ''in.pdf'' @ [CHR 0x27] @ ''...'',
                ''Error: File not found: in.pdf'']\<rparr> \<and>
   (\<exists>doc. parse_pdf None [''in.pdf'' \<mapsto> PdfFile []] ''in.pdf'' = Inr doc \<and>
      files (main None ''in.pdf'' ''out.json''
               \<lparr>files = [''in.pdf'' \<mapsto> PdfFile []], stdout = []\<rparr>) =
        [''in.pdf'' \<mapsto> PdfFile [], ''out.json'' \<mapsto> JsonFile doc])"
  using missing_input
    [of Map.empty "''in.pdf''" None "\<lparr>files = Map.empty, stdout = []\<rparr>" "''in.pdf''"
        "''out.json''" "\<lparr>files = [''in.pdf'' \<mapsto> PdfFile []], stdout = []\<rparr>" "[]"]
  by simp

end
